theory Spec2Isabelle
  imports
    Main
    "HOL-Library.Finite_Map"
    "HOL-Library.Multiset"
    "HOL-Library.Char_ord"
    "HOL-Library.List_Lexorder"
begin

section \<open>Data model (package common)\<close>

text \<open>
  Go distinguishes a nil slice or map from an empty one: \<open>reflect.DeepEqual\<close> tells
  them apart, \<open>len\<close> and \<open>slices.Equal\<close> do not. A slice or map field is therefore an
  \<open>option\<close>: \<open>None\<close> is nil, \<open>Some\<close> carries the elements. A Go \<open>string\<close> is a byte
  sequence, compared bytewise; \<open>string\<close> with the lexicographic order of
  \<open>List_Lexorder\<close> over \<open>Char_ord\<close> is the same order.

  A map that the code only reads with \<open>len\<close> and an index expression (the field filter) is a
  finite map; nil and empty behave alike under those two operations.
\<close>

type_synonym 'a slice = "'a list option"

type_synonym go_map = "(string, string) fmap option"

record BlockDeviceMapping =
  DeviceName :: string
  VolumeID :: string

record EC2Instance =
  InstanceID :: string
  InstanceType :: string
  ImageID :: string
  KeyName :: string
  State :: string
  AvailabilityZone :: string
  PrivateIPAddress :: string
  PublicIPAddress :: string
  SubnetID :: string
  VpcID :: string
  SecurityGroups :: "string slice"
  Tags :: go_map
  BlockDeviceMappings :: "BlockDeviceMapping slice"
  IamInstanceProfile :: string
  Monitoring :: bool
  Architecture :: string
  VirtualizationType :: string

text \<open>
  \<open>FieldDiff\<close> stores two values of type \<open>any\<close>. The engine stores strings, booleans,
  \<open>map[string]string\<close> and \<open>[]string\<close> there; equality of this datatype is
  \<open>reflect.DeepEqual\<close> on such values.
\<close>

datatype any =
    AString string
  | ABool bool
  | AMap go_map
  | ASlice "string slice"

record FieldDiff =
  AWS :: any
  Terraform :: any

record DriftResult =
  InstanceID :: string
  DriftDetected :: bool
  Differences :: "(string, FieldDiff) fmap"

type_synonym filter = "(string, bool) fmap"

type_synonym diffs = "(string, FieldDiff) fmap"

section \<open>Go built-ins used by the engine\<close>

text \<open>\<open>len(m)\<close> of a map: the number of keys.\<close>

definition len_map :: "('k, 'v) fmap \<Rightarrow> nat" where
  "len_map m = fcard (fmdom m)"

text \<open>\<open>filter[field]\<close> on a \<open>map[string]bool\<close>: the zero value \<open>false\<close> for a missing key.\<close>

definition index_bool :: "filter \<Rightarrow> string \<Rightarrow> bool" where
  "index_bool m k = (case fmlookup m k of None \<Rightarrow> False | Some b \<Rightarrow> b)"

text \<open>The elements of a slice; a nil slice has none.\<close>

fun elems :: "'a slice \<Rightarrow> 'a list" where
  "elems None = []"
| "elems (Some xs) = xs"

text \<open>
  \<open>append(base, src...)\<close> where \<open>base\<close> has no spare capacity (every call of the engine
  appends to \<open>[]string{}\<close> or \<open>[]string(nil)\<close>): with nothing to append the result is
  \<open>base\<close> itself, nil if \<open>base\<close> is nil; otherwise a new non-nil slice.
\<close>

definition go_append :: "'a slice \<Rightarrow> 'a slice \<Rightarrow> 'a slice" where
  "go_append base src =
     (case elems src of [] \<Rightarrow> base | x # xs \<Rightarrow> Some (elems base @ x # xs))"

text \<open>\<open>sort.Strings\<close>: ascending, nil stays nil.\<close>

definition sort_Strings :: "string slice \<Rightarrow> string slice" where
  "sort_Strings s = map_option sort s"

text \<open>\<open>slices.Equal\<close>: same length and same elements; nil equals empty.\<close>

definition slices_Equal :: "'a slice \<Rightarrow> 'a slice \<Rightarrow> bool" where
  "slices_Equal a b = (elems a = elems b)"

section \<open>Helpers (pkg/common/helper.go)\<close>

fun flatten_loop :: "BlockDeviceMapping list \<Rightarrow> string list \<Rightarrow> string list" where
  "flatten_loop [] flat = flat"
| "flatten_loop (d # ds) flat = flatten_loop ds (flat @ [DeviceName d @ ''|'' @ VolumeID d])"

definition FlattenBlockDevices :: "BlockDeviceMapping slice \<Rightarrow> string slice" where
  "FlattenBlockDevices devices =
     (if length (elems devices) = 0 then Some []
      else Some (flatten_loop (elems devices) []))"

section \<open>The per-pair comparator (current engine)\<close>

definition shouldCompare :: "filter \<Rightarrow> string \<Rightarrow> bool" where
  "shouldCompare flt field = (len_map flt = 0 \<or> index_bool flt field)"

text \<open>
  \<open>compareField[T comparable]\<close>: the parameter \<open>box\<close> is the conversion of a \<open>T\<close> to
  \<open>any\<close> that Go performs when the value is stored in the \<open>FieldDiff\<close>.
\<close>

definition compareField ::
  "('t \<Rightarrow> any) \<Rightarrow> string \<Rightarrow> 't \<Rightarrow> 't \<Rightarrow> filter \<Rightarrow> diffs \<Rightarrow> diffs" where
  "compareField box field a b flt out =
     (if 0 < len_map flt \<and> \<not> index_bool flt field then out
      else if a \<noteq> b then fmupd field \<lparr>AWS = box a, Terraform = box b\<rparr> out
      else out)"

definition compareMap :: "string \<Rightarrow> go_map \<Rightarrow> go_map \<Rightarrow> filter \<Rightarrow> diffs \<Rightarrow> diffs" where
  "compareMap field a b flt out =
     (if 0 < len_map flt \<and> \<not> index_bool flt field then out
      else if a \<noteq> b then fmupd field \<lparr>AWS = AMap a, Terraform = AMap b\<rparr> out
      else out)"

definition compareSlice ::
  "string \<Rightarrow> string slice \<Rightarrow> string slice \<Rightarrow> filter \<Rightarrow> diffs \<Rightarrow> diffs" where
  "compareSlice field a b flt out =
     (if 0 < len_map flt \<and> \<not> index_bool flt field then out
      else
        let sa = sort_Strings (go_append None a);
            sb = sort_Strings (go_append None b)
        in if \<not> slices_Equal sa sb
           then fmupd field \<lparr>AWS = ASlice sa, Terraform = ASlice sb\<rparr> out
           else out)"

text \<open>
  \<open>compareInstances\<close>, statement by statement; \<open>out\<close> is \<open>result.Differences\<close>, rebound
  at each call that may write into it.
\<close>

definition compareInstances :: "EC2Instance \<Rightarrow> EC2Instance \<Rightarrow> filter \<Rightarrow> DriftResult" where
  "compareInstances awsInst tfInst flt =
     (let out = fmempty;
          out = compareField AString ''instance_type''
                  (InstanceType awsInst) (InstanceType tfInst) flt out;
          out = compareField AString ''image_id'' (ImageID awsInst) (ImageID tfInst) flt out;
          out = compareField AString ''key_name'' (KeyName awsInst) (KeyName tfInst) flt out;
          out = compareField AString ''subnet_id'' (SubnetID awsInst) (SubnetID tfInst) flt out;
          out = compareField AString ''vpc_id'' (VpcID awsInst) (VpcID tfInst) flt out;
          out = compareField AString ''iam_instance_profile''
                  (IamInstanceProfile awsInst) (IamInstanceProfile tfInst) flt out;
          out = compareField ABool ''monitoring'' (Monitoring awsInst) (Monitoring tfInst) flt out;
          out = compareField AString ''architecture''
                  (Architecture awsInst) (Architecture tfInst) flt out;
          out = compareField AString ''virtualization_type''
                  (VirtualizationType awsInst) (VirtualizationType tfInst) flt out;
          out = (if shouldCompare flt ''tags'' \<and> Tags awsInst \<noteq> Tags tfInst
                 then compareMap ''tags'' (Tags awsInst) (Tags tfInst) flt out
                 else out);
          out = (if shouldCompare flt ''security_groups'' then
                   let awsSg = go_append (Some []) (SecurityGroups awsInst);
                       tfSg = go_append (Some []) (SecurityGroups tfInst);
                       awsSg = sort_Strings awsSg;
                       tfSg = sort_Strings tfSg
                   in if \<not> slices_Equal awsSg tfSg
                      then compareSlice ''security_groups'' awsSg tfSg flt out
                      else out
                 else out);
          out = (if shouldCompare flt ''block_device_mappings'' then
                   let awsBdm = FlattenBlockDevices (BlockDeviceMappings awsInst);
                       tfBdm = FlattenBlockDevices (BlockDeviceMappings tfInst);
                       awsBdm = sort_Strings awsBdm;
                       tfBdm = sort_Strings tfBdm
                   in if \<not> slices_Equal awsBdm tfBdm
                      then compareSlice ''block_device_mappings'' awsBdm tfBdm flt out
                      else out
                 else out)
      in \<lparr>InstanceID = EC2Instance.InstanceID awsInst,
          DriftDetected = (0 < len_map out),
          Differences = out\<rparr>)"

section \<open>The per-pair comparator (legacy engine, pkg/engine/engine.go)\<close>

text \<open>
  The closure \<open>compare\<close> of \<open>CompareInstances\<close>; it captures the filter and writes into
  \<open>result.Differences\<close>, passed and returned here. Its arguments are already of type
  \<open>any\<close>.
\<close>

definition compare :: "filter \<Rightarrow> string \<Rightarrow> any \<Rightarrow> any \<Rightarrow> diffs \<Rightarrow> diffs" where
  "compare flt field a b out =
     (if shouldCompare flt field \<and> a \<noteq> b
      then fmupd field \<lparr>AWS = a, Terraform = b\<rparr> out
      else out)"

definition CompareInstances :: "EC2Instance \<Rightarrow> EC2Instance \<Rightarrow> filter \<Rightarrow> DriftResult" where
  "CompareInstances awsInst tfInst flt =
     (let out = fmempty;
          out = compare flt ''instance_type''
                  (AString (InstanceType awsInst)) (AString (InstanceType tfInst)) out;
          out = compare flt ''image_id'' (AString (ImageID awsInst)) (AString (ImageID tfInst)) out;
          out = compare flt ''key_name'' (AString (KeyName awsInst)) (AString (KeyName tfInst)) out;
          out = compare flt ''subnet_id''
                  (AString (SubnetID awsInst)) (AString (SubnetID tfInst)) out;
          out = compare flt ''vpc_id'' (AString (VpcID awsInst)) (AString (VpcID tfInst)) out;
          out = compare flt ''iam_instance_profile''
                  (AString (IamInstanceProfile awsInst)) (AString (IamInstanceProfile tfInst)) out;
          out = compare flt ''monitoring''
                  (ABool (Monitoring awsInst)) (ABool (Monitoring tfInst)) out;
          out = compare flt ''architecture''
                  (AString (Architecture awsInst)) (AString (Architecture tfInst)) out;
          out = compare flt ''virtualization_type''
                  (AString (VirtualizationType awsInst)) (AString (VirtualizationType tfInst)) out;
          out = (if shouldCompare flt ''tags'' \<and> Tags awsInst \<noteq> Tags tfInst
                 then compare flt ''tags'' (AMap (Tags awsInst)) (AMap (Tags tfInst)) out
                 else out);
          out = (if shouldCompare flt ''security_groups'' then
                   let awsSg = go_append (Some []) (SecurityGroups awsInst);
                       tfSg = go_append (Some []) (SecurityGroups tfInst);
                       awsSg = sort_Strings awsSg;
                       tfSg = sort_Strings tfSg
                   in if \<not> slices_Equal awsSg tfSg
                      then compare flt ''security_groups'' (ASlice awsSg) (ASlice tfSg) out
                      else out
                 else out);
          out = (if shouldCompare flt ''block_device_mappings'' then
                   let awsBdm = FlattenBlockDevices (BlockDeviceMappings awsInst);
                       tfBdm = FlattenBlockDevices (BlockDeviceMappings tfInst);
                       awsBdm = sort_Strings awsBdm;
                       tfBdm = sort_Strings tfBdm
                   in if \<not> slices_Equal awsBdm tfBdm
                      then compare flt ''block_device_mappings'' (ASlice awsBdm) (ASlice tfBdm) out
                      else out
                 else out)
      in \<lparr>InstanceID = EC2Instance.InstanceID awsInst,
          DriftDetected = (0 < len_map out),
          Differences = out\<rparr>)"

section \<open>The dispatcher (current engine): \<open>CompareAllInstances\<close>\<close>

text \<open>
  The lookup table: \<open>tfMap[tfInst.InstanceID] = tfInst\<close> for each declared instance in
  order, so the last one with a given identifier wins. The slices hold pointers in the
  source; the model takes them to be non-nil, as every caller in the repository does.
\<close>

fun build_tfMap ::
  "EC2Instance list \<Rightarrow> (string, EC2Instance) fmap \<Rightarrow> (string, EC2Instance) fmap" where
  "build_tfMap [] tfMap = tfMap"
| "build_tfMap (tfInst # rest) tfMap =
     build_tfMap rest (fmupd (EC2Instance.InstanceID tfInst) tfInst tfMap)"

text \<open>
  What a worker does with one task it has received, up to the value it sends on
  \<open>resultsCh\<close>.
\<close>

definition worker_task ::
  "(string, EC2Instance) fmap \<Rightarrow> filter \<Rightarrow> EC2Instance \<Rightarrow> DriftResult" where
  "worker_task tfMap flt awsInst =
     (case fmlookup tfMap (EC2Instance.InstanceID awsInst) of
        None \<Rightarrow>
          \<lparr>InstanceID = EC2Instance.InstanceID awsInst,
           DriftDetected = True,
           Differences =
             fmupd ''terraform_state''
               \<lparr>AWS = AString ''exists'', Terraform = AString ''missing''\<rparr> fmempty\<rparr>
      | Some tfInst \<Rightarrow> compareInstances awsInst tfInst flt)"

text \<open>
  The goroutines synchronise on two unbuffered channels, a wait group and the context.
  The model is the interleaving of these synchronisations; what a goroutine computes
  between two of them is local and pure, so it is part of the step that precedes it.

  A worker is at its \<open>select\<close>, or blocked sending a result, or has returned.
\<close>

datatype worker = Selecting | Sending DriftResult | Exited

record state =
  cancelled :: bool
  queue :: "EC2Instance list"
  tasks_closed :: bool
  workers :: "worker list"
  results :: "DriftResult list"
  results_closed :: bool

text \<open>
  \<^item> \<open>Cancel\<close>: the context is cancelled (\<open>ctx.Done()\<close> becomes readable).
  \<^item> \<open>Feed i\<close>: the feeder's \<open>tasks <- awsInst\<close> meets the receive of worker \<open>i\<close>
    at its \<open>select\<close>; the worker looks the instance up, compares, and blocks on
    \<open>resultsCh <-\<close>.
  \<^item> \<open>CloseTasks\<close>: the feeder has sent every instance and closes \<open>tasks\<close>.
  \<^item> \<open>SeeDone i\<close>: worker \<open>i\<close> takes the \<open>ctx.Done()\<close> case and returns.
  \<^item> \<open>SeeClosed i\<close>: worker \<open>i\<close> receives from the closed \<open>tasks\<close> and returns.
  \<^item> \<open>Collect i\<close>: the send of worker \<open>i\<close> meets the receive of the collecting
    loop, which appends the result; the worker is back at its \<open>select\<close>.
  \<^item> \<open>CloseResults\<close>: every worker has returned, \<open>wg.Wait()\<close> passes and \<open>resultsCh\<close>
    is closed; the collecting loop ends and the function returns \<open>results\<close>.
  When both cases of a \<open>select\<close> are ready Go picks either, so \<open>Feed i\<close> stays enabled
  after \<open>Cancel\<close>.
\<close>

datatype event =
    Cancel
  | Feed nat
  | CloseTasks
  | SeeDone nat
  | SeeClosed nat
  | Collect nat
  | CloseResults

definition maxWorkers :: nat where
  "maxWorkers = 10"

definition init :: "bool \<Rightarrow> EC2Instance list \<Rightarrow> state" where
  "init ctx_done awsInstances =
     \<lparr>cancelled = ctx_done,
      queue = awsInstances,
      tasks_closed = False,
      workers = replicate maxWorkers Selecting,
      results = [],
      results_closed = False\<rparr>"

definition at_select :: "state \<Rightarrow> nat \<Rightarrow> bool" where
  "at_select s i = (i < length (workers s) \<and> workers s ! i = Selecting)"

fun step :: "(string, EC2Instance) fmap \<Rightarrow> filter \<Rightarrow> event \<Rightarrow> state \<Rightarrow> state option" where
  "step tfMap flt Cancel s =
     (if cancelled s then None else Some (s\<lparr>cancelled := True\<rparr>))"
| "step tfMap flt (Feed i) s =
     (case queue s of
        [] \<Rightarrow> None
      | awsInst # rest \<Rightarrow>
          if at_select s i
          then Some (s\<lparr>queue := rest,
                        workers := (workers s)[i := Sending (worker_task tfMap flt awsInst)]\<rparr>)
          else None)"
| "step tfMap flt CloseTasks s =
     (if queue s = [] \<and> \<not> tasks_closed s then Some (s\<lparr>tasks_closed := True\<rparr>) else None)"
| "step tfMap flt (SeeDone i) s =
     (if cancelled s \<and> at_select s i
      then Some (s\<lparr>workers := (workers s)[i := Exited]\<rparr>)
      else None)"
| "step tfMap flt (SeeClosed i) s =
     (if tasks_closed s \<and> at_select s i
      then Some (s\<lparr>workers := (workers s)[i := Exited]\<rparr>)
      else None)"
| "step tfMap flt (Collect i) s =
     (if i < length (workers s) then
        (case workers s ! i of
           Sending r \<Rightarrow>
             Some (s\<lparr>results := results s @ [r], workers := (workers s)[i := Selecting]\<rparr>)
         | _ \<Rightarrow> None)
      else None)"
| "step tfMap flt CloseResults s =
     (if list_all (\<lambda>w. w = Exited) (workers s) \<and> \<not> results_closed s
      then Some (s\<lparr>results_closed := True\<rparr>)
      else None)"

text \<open>A schedule is run from a state; \<open>None\<close> when it asks for a step that is not enabled.\<close>

fun run ::
  "(string, EC2Instance) fmap \<Rightarrow> filter \<Rightarrow> event list \<Rightarrow> state \<Rightarrow> state option" where
  "run tfMap flt [] s = Some s"
| "run tfMap flt (e # es) s =
     (case step tfMap flt e s of None \<Rightarrow> None | Some s' \<Rightarrow> run tfMap flt es s')"

text \<open>
  \<open>CompareAllInstances ctx awsInstances tfInstances filter\<close> under a schedule: the state
  reached. The call has returned when \<open>results_closed\<close> holds, and its value is then
  \<open>results\<close>. \<open>ctx_done\<close> says whether the context was cancelled before the call.
\<close>

definition CompareAllInstances ::
  "bool \<Rightarrow> EC2Instance list \<Rightarrow> EC2Instance list \<Rightarrow> filter \<Rightarrow> event list \<Rightarrow> state option" where
  "CompareAllInstances ctx_done awsInstances tfInstances flt sched =
     run (build_tfMap tfInstances fmempty) flt sched (init ctx_done awsInstances)"

text \<open>Steps left at most: the bound on the length of a run.\<close>

fun weight :: "worker \<Rightarrow> nat" where
  "weight Selecting = 1"
| "weight (Sending r) = 2"
| "weight Exited = 0"

definition steps_left :: "state \<Rightarrow> nat" where
  "steps_left s =
     2 * length (queue s) + sum_list (map weight (workers s))
     + (if tasks_closed s then 0 else 1)
     + (if results_closed s then 0 else 1)
     + (if cancelled s then 0 else 1)"

text \<open>The results that workers hold and have not yet handed over.\<close>

fun held :: "worker \<Rightarrow> DriftResult list" where
  "held (Sending r) = [r]"
| "held w = []"

definition in_flight :: "worker list \<Rightarrow> DriftResult list" where
  "in_flight ws = concat (map held ws)"

section \<open>Auxiliary definitions for the proofs\<close>

text \<open>
  \<open>compareInstances\<close> writes into the differences in four stages: the nine scalar
  fields, the tags, the security groups and the block devices. The last two have the
  same shape and differ in the field name and in how the two slices are obtained.
\<close>

definition scalar_step :: "EC2Instance \<Rightarrow> EC2Instance \<Rightarrow> filter \<Rightarrow> diffs" where
  "scalar_step awsInst tfInst flt =
     compareField AString ''virtualization_type''
       (VirtualizationType awsInst) (VirtualizationType tfInst) flt
      (compareField AString ''architecture'' (Architecture awsInst) (Architecture tfInst) flt
        (compareField ABool ''monitoring'' (Monitoring awsInst) (Monitoring tfInst) flt
          (compareField AString ''iam_instance_profile''
             (IamInstanceProfile awsInst) (IamInstanceProfile tfInst) flt
            (compareField AString ''vpc_id'' (VpcID awsInst) (VpcID tfInst) flt
              (compareField AString ''subnet_id'' (SubnetID awsInst) (SubnetID tfInst) flt
                (compareField AString ''key_name'' (KeyName awsInst) (KeyName tfInst) flt
                  (compareField AString ''image_id'' (ImageID awsInst) (ImageID tfInst) flt
                    (compareField AString ''instance_type''
                       (InstanceType awsInst) (InstanceType tfInst) flt fmempty))))))))"

definition tags_step :: "EC2Instance \<Rightarrow> EC2Instance \<Rightarrow> filter \<Rightarrow> diffs \<Rightarrow> diffs" where
  "tags_step awsInst tfInst flt out =
     (if shouldCompare flt ''tags'' \<and> Tags awsInst \<noteq> Tags tfInst
      then compareMap ''tags'' (Tags awsInst) (Tags tfInst) flt out
      else out)"

definition slice_step ::
  "string \<Rightarrow> string slice \<Rightarrow> string slice \<Rightarrow> filter \<Rightarrow> diffs \<Rightarrow> diffs" where
  "slice_step field a b flt out =
     (if shouldCompare flt field then
        if \<not> slices_Equal (sort_Strings a) (sort_Strings b)
        then compareSlice field (sort_Strings a) (sort_Strings b) flt out
        else out
      else out)"

text \<open>Instances and filters for the examples.\<close>

definition blank :: EC2Instance where
  "blank =
     \<lparr>EC2Instance.InstanceID = [], InstanceType = [], ImageID = [], KeyName = [],
      State = [],
      AvailabilityZone = [], PrivateIPAddress = [], PublicIPAddress = [], SubnetID = [],
      VpcID = [], SecurityGroups = None, Tags = None, BlockDeviceMappings = None,
      IamInstanceProfile = [], Monitoring = False, Architecture = [],
      VirtualizationType = []\<rparr>"

definition aws_i1 :: EC2Instance where
  "aws_i1 = blank\<lparr>EC2Instance.InstanceID := ''i-1'', InstanceType := ''t3.micro''\<rparr>"

definition tf_i1 :: EC2Instance where
  "tf_i1 = blank\<lparr>EC2Instance.InstanceID := ''i-1'', InstanceType := ''t2.micro''\<rparr>"

definition only_tags :: filter where
  "only_tags = fmupd ''tags'' True fmempty"

text \<open>The field names that \<open>compareInstances\<close> passes to the filter.\<close>

definition schema_fields :: "string list" where
  "schema_fields =
     [''instance_type'', ''image_id'', ''key_name'', ''subnet_id'', ''vpc_id'',
      ''iam_instance_profile'', ''monitoring'', ''architecture'', ''virtualization_type'',
      ''tags'', ''security_groups'', ''block_device_mappings'']"

text \<open>
  A permutation of a slice: nil stays nil, and the elements are the same with the same
  multiplicities.
\<close>

fun perm_slice :: "'a slice \<Rightarrow> 'a slice \<Rightarrow> bool" where
  "perm_slice None None = True"
| "perm_slice (Some xs) (Some ys) = (mset xs = mset ys)"
| "perm_slice _ _ = False"

text \<open>
  What a stored difference holds for a slice field: \<open>stores e xs ys\<close> says that the
  entry \<open>e\<close>, if there is one, holds the sorted \<open>xs\<close> as its AWS value and the sorted
  \<open>ys\<close> as its Terraform value.
\<close>

fun slice_elems :: "any \<Rightarrow> string list option" where
  "slice_elems (ASlice s) = Some (elems s)"
| "slice_elems v = None"

definition stores :: "FieldDiff option \<Rightarrow> string list \<Rightarrow> string list \<Rightarrow> bool" where
  "stores e xs ys =
     (case e of
        None \<Rightarrow> True
      | Some d \<Rightarrow> slice_elems (AWS d) = Some (sort xs) \<and> slice_elems (Terraform d) = Some (sort ys))"

text \<open>The string that \<open>FlattenBlockDevices\<close> makes of one mapping.\<close>

definition flat_key :: "BlockDeviceMapping \<Rightarrow> string" where
  "flat_key d = DeviceName d @ ''|'' @ VolumeID d"

definition aws_sg :: EC2Instance where
  "aws_sg =
     blank\<lparr>EC2Instance.InstanceID := ''i-1'',
           SecurityGroups := Some [''sg-2'', ''sg-1''],
           BlockDeviceMappings :=
             Some [\<lparr>DeviceName = ''/dev/sdb'', VolumeID = ''vol-2''\<rparr>,
                   \<lparr>DeviceName = ''/dev/sda'', VolumeID = ''vol-1''\<rparr>]\<rparr>"

definition tf_sg :: EC2Instance where
  "tf_sg =
     blank\<lparr>EC2Instance.InstanceID := ''i-1'', SecurityGroups := Some [''sg-3'', ''sg-1'']\<rparr>"

text \<open>
  Two stored values are the same up to the difference between a nil and an empty
  slice when their normal forms are equal; \<open>norm_result\<close> normalises every stored
  value of a result.
\<close>

fun norm_any :: "any \<Rightarrow> any" where
  "norm_any (ASlice s) = ASlice (Some (elems s))"
| "norm_any v = v"

definition norm_diff :: "FieldDiff \<Rightarrow> FieldDiff" where
  "norm_diff d = \<lparr>AWS = norm_any (AWS d), Terraform = norm_any (Terraform d)\<rparr>"

definition norm_result :: "DriftResult \<Rightarrow> DriftResult" where
  "norm_result r = r\<lparr>Differences := fmmap norm_diff (Differences r)\<rparr>"

text \<open>The slice stages of the legacy \<open>CompareInstances\<close>.\<close>

definition legacy_slice_step ::
  "string \<Rightarrow> string slice \<Rightarrow> string slice \<Rightarrow> filter \<Rightarrow> diffs \<Rightarrow> diffs" where
  "legacy_slice_step field a b flt out =
     (if shouldCompare flt field then
        if \<not> slices_Equal (sort_Strings a) (sort_Strings b)
        then compare flt field (ASlice (sort_Strings a)) (ASlice (sort_Strings b)) out
        else out
      else out)"

text \<open>
  Invariants of the dispatcher. \<open>accounted\<close>: each observed instance is still in the
  queue, or its result is held by a worker, or its result has been collected.
  \<open>consistent\<close>: the pool keeps its size; the channel \<open>tasks\<close> is closed only once the
  queue is empty; \<open>resultsCh\<close> is closed only once every worker has returned; a worker
  has returned only after cancellation or after \<open>tasks\<close> was closed.
\<close>

definition accounted ::
  "(string, EC2Instance) fmap \<Rightarrow> filter \<Rightarrow> EC2Instance list \<Rightarrow> state \<Rightarrow> bool" where
  "accounted tfMap flt awsInstances s =
     (mset (results s) + mset (in_flight (workers s))
        + mset (map (worker_task tfMap flt) (queue s))
      = mset (map (worker_task tfMap flt) awsInstances))"

definition all_exited :: "state \<Rightarrow> bool" where
  "all_exited s = list_all (\<lambda>w. w = Exited) (workers s)"

definition consistent :: "state \<Rightarrow> bool" where
  "consistent s =
     (length (workers s) = maxWorkers
      \<and> (tasks_closed s \<longrightarrow> queue s = [])
      \<and> (results_closed s \<longrightarrow> all_exited s)
      \<and> (Exited \<in> set (workers s) \<longrightarrow> cancelled s \<or> tasks_closed s))"

text \<open>
  The result that a worker of the current engine sends for an observed instance
  without a declared counterpart, and the one that the legacy \<open>CompareAllInstances\<close>
  appends (pkg/engine/engine.go), which names the field \<open>terraform\<close>.
\<close>

definition missing_result :: "string \<Rightarrow> DriftResult" where
  "missing_result ident =
     \<lparr>InstanceID = ident,
      DriftDetected = True,
      Differences =
        fmupd ''terraform_state''
          \<lparr>AWS = AString ''exists'', Terraform = AString ''missing''\<rparr> fmempty\<rparr>"

definition legacy_missing_result :: "string \<Rightarrow> DriftResult" where
  "legacy_missing_result ident =
     \<lparr>InstanceID = ident,
      DriftDetected = True,
      Differences =
        fmupd ''terraform''
          \<lparr>AWS = AString ''exists'', Terraform = AString ''missing''\<rparr> fmempty\<rparr>"

text \<open>
  Two runs. In \<open>sched_all\<close>, without cancellation, workers 0 and 1 take the two
  instances, the result of worker 1 is collected first, the feeder closes \<open>tasks\<close> and
  every worker returns. In \<open>sched_cancelled\<close> the context is cancelled before the call
  and every worker takes the \<open>ctx.Done()\<close> case at once.
\<close>

definition aws_i2 :: EC2Instance where
  "aws_i2 = blank\<lparr>EC2Instance.InstanceID := ''i-2'', InstanceType := ''t3.medium''\<rparr>"

definition sched_all :: "event list" where
  "sched_all =
     [Feed 0, Feed 1, Collect 1, Collect 0, CloseTasks,
      SeeClosed 0, SeeClosed 1, SeeClosed 2, SeeClosed 3, SeeClosed 4,
      SeeClosed 5, SeeClosed 6, SeeClosed 7, SeeClosed 8, SeeClosed 9,
      CloseResults]"

definition sched_cancelled :: "event list" where
  "sched_cancelled =
     [SeeDone 0, SeeDone 1, SeeDone 2, SeeDone 3, SeeDone 4,
      SeeDone 5, SeeDone 6, SeeDone 7, SeeDone 8, SeeDone 9,
      CloseResults]"

definition final_all :: state where
  "final_all =
     \<lparr>cancelled = False, queue = [], tasks_closed = True,
      workers = replicate maxWorkers Exited,
      results =
        [worker_task (build_tfMap [tf_i1] fmempty) fmempty aws_i2,
         worker_task (build_tfMap [tf_i1] fmempty) fmempty aws_i1],
      results_closed = True\<rparr>"

definition final_cancelled :: state where
  "final_cancelled =
     \<lparr>cancelled = True, queue = [aws_i2], tasks_closed = False,
      workers = replicate maxWorkers Exited,
      results = [],
      results_closed = True\<rparr>"

section \<open>Properties\<close>

subsection \<open>The stages of \<open>compareInstances\<close>\<close>

lemma compareInstances_Differences:
  "Differences (compareInstances a b flt) =
     slice_step ''block_device_mappings''
       (FlattenBlockDevices (BlockDeviceMappings a)) (FlattenBlockDevices (BlockDeviceMappings b)) flt
       (slice_step ''security_groups''
          (go_append (Some []) (SecurityGroups a)) (go_append (Some []) (SecurityGroups b)) flt
          (tags_step a b flt (scalar_step a b flt)))"
  by (simp only: compareInstances_def Let_def DriftResult.select_convs scalar_step_def
        tags_step_def slice_step_def)

lemma compareInstances_InstanceID:
  "DriftResult.InstanceID (compareInstances a b flt) = EC2Instance.InstanceID a"
  by (simp only: compareInstances_def Let_def DriftResult.select_convs)

lemma compareInstances_DriftDetected:
  "DriftDetected (compareInstances a b flt) = (0 < len_map (Differences (compareInstances a b flt)))"
  by (simp only: compareInstances_def Let_def DriftResult.select_convs)


lemma len_map_empty [simp]: "len_map fmempty = 0"
  by (simp add: len_map_def)

lemma len_map_eq0: "len_map m = 0 \<longleftrightarrow> m = fmempty"
proof
  assume "len_map m = 0"
  then have "fmdom m = {||}" by (simp add: len_map_def)
  then show "m = fmempty" by (simp add: fmap_ext fmdom_notD)
qed simp

lemma len_map_upd [simp]: "0 < len_map (fmupd k v m)"
proof -
  have "fmupd k v m \<noteq> fmempty"
    by (metis fmempty_lookup fmupd_lookup option.distinct(1))
  then have "len_map (fmupd k v m) \<noteq> 0" by (simp only: len_map_eq0 not_False_eq_True)
  then show ?thesis by simp
qed

lemma not_shouldCompare: "(0 < len_map flt \<and> \<not> index_bool flt field) = (\<not> shouldCompare flt field)"
  by (auto simp: shouldCompare_def)

lemma lookup_compareField:
  "fmlookup (compareField box field a b flt out) n =
     (if n = field \<and> shouldCompare flt field \<and> a \<noteq> b
      then Some \<lparr>AWS = box a, Terraform = box b\<rparr> else fmlookup out n)"
  by (auto simp: compareField_def not_shouldCompare)

lemma lookup_compareMap:
  "fmlookup (compareMap field a b flt out) n =
     (if n = field \<and> shouldCompare flt field \<and> a \<noteq> b
      then Some \<lparr>AWS = AMap a, Terraform = AMap b\<rparr> else fmlookup out n)"
  by (auto simp: compareMap_def not_shouldCompare)

lemma lookup_compareSlice:
  "fmlookup (compareSlice field a b flt out) n =
     (if n = field \<and> shouldCompare flt field
         \<and> \<not> slices_Equal (sort_Strings (go_append None a)) (sort_Strings (go_append None b))
      then Some \<lparr>AWS = ASlice (sort_Strings (go_append None a)),
                 Terraform = ASlice (sort_Strings (go_append None b))\<rparr>
      else fmlookup out n)"
  by (auto simp: compareSlice_def not_shouldCompare Let_def)

lemma lookup_scalar_step_filtered:
  "\<not> shouldCompare flt n \<Longrightarrow> fmlookup (scalar_step a b flt) n = None"
  by (auto simp: scalar_step_def lookup_compareField)

lemma lookup_tags_step_filtered:
  "\<not> shouldCompare flt n \<Longrightarrow> fmlookup (tags_step a b flt out) n = fmlookup out n"
  by (auto simp: tags_step_def lookup_compareMap)

lemma lookup_slice_step_filtered:
  "\<not> shouldCompare flt n \<Longrightarrow> fmlookup (slice_step field x y flt out) n = fmlookup out n"
  by (auto simp: slice_step_def lookup_compareSlice)


lemma index_bool_absent: "fmlookup flt name = None \<Longrightarrow> \<not> index_bool flt name"
  by (simp add: index_bool_def)

subsection \<open>Filter restriction\<close>

text \<open>
  C5. For every pair of instances and every non-empty filter, the differences hold no
  entry for a field name whose filter value \<open>filter[name]\<close> is false, which is so for
  every name that is not a key of the filter (\<open>index_bool_absent\<close>), whatever the
  values of the two instances.
\<close>

theorem filter_restriction:
  assumes "0 < len_map flt" and "\<not> index_bool flt name"
  shows "fmlookup (Differences (compareInstances a b flt)) name = None"
proof -
  have "\<not> shouldCompare flt name"
    using assms by (simp add: shouldCompare_def)
  then show ?thesis
    by (simp add: compareInstances_Differences lookup_slice_step_filtered
          lookup_tags_step_filtered lookup_scalar_step_filtered)
qed

text \<open>
  The two instances differ in their instance type; with the filter \<open>{tags}\<close> no
  difference is stored for \<open>instance_type\<close>.
\<close>

theorem filter_restriction_witness:
  "0 < len_map only_tags \<and> \<not> index_bool only_tags ''instance_type''
   \<and> InstanceType aws_i1 \<noteq> InstanceType tf_i1
   \<and> fmlookup (Differences (compareInstances aws_i1 tf_i1 only_tags)) ''instance_type'' = None"
  using filter_restriction [of only_tags "''instance_type''" aws_i1 tf_i1]
  by (simp add: only_tags_def index_bool_def aws_i1_def tf_i1_def)

subsection \<open>Unrecognized filter names\<close>

lemma index_bool_upd:
  "index_bool (fmupd k v m) n = (if n = k then v else index_bool m n)"
  by (simp add: index_bool_def)

lemma compareInstances_filter_cong:
  assumes len: "(len_map f = 0) = (len_map f' = 0)"
    and idx: "\<And>n. n \<in> set schema_fields \<Longrightarrow> index_bool f n = index_bool f' n"
  shows "compareInstances a b f = compareInstances a b f'"
proof -
  have pos: "(0 < len_map f) = (0 < len_map f')"
    using len by auto
  have sc: "\<And>n. n \<in> set schema_fields \<Longrightarrow> shouldCompare f n = shouldCompare f' n"
    by (simp add: shouldCompare_def len idx)
  have cf: "\<And>box n x y out. n \<in> set schema_fields \<Longrightarrow>
      compareField box n x y f out = compareField box n x y f' out"
    by (simp add: compareField_def pos idx)
  have cm: "\<And>n x y out. n \<in> set schema_fields \<Longrightarrow>
      compareMap n x y f out = compareMap n x y f' out"
    by (simp add: compareMap_def pos idx)
  have cs: "\<And>n x y out. n \<in> set schema_fields \<Longrightarrow>
      compareSlice n x y f out = compareSlice n x y f' out"
    by (simp add: compareSlice_def pos idx)
  have mem: "''instance_type'' \<in> set schema_fields" "''image_id'' \<in> set schema_fields"
    "''key_name'' \<in> set schema_fields" "''subnet_id'' \<in> set schema_fields"
    "''vpc_id'' \<in> set schema_fields" "''iam_instance_profile'' \<in> set schema_fields"
    "''monitoring'' \<in> set schema_fields" "''architecture'' \<in> set schema_fields"
    "''virtualization_type'' \<in> set schema_fields" "''tags'' \<in> set schema_fields"
    "''security_groups'' \<in> set schema_fields" "''block_device_mappings'' \<in> set schema_fields"
    by (simp_all add: schema_fields_def)
  show ?thesis
    unfolding compareInstances_def
    by (simp only: sc [OF mem(10)] sc [OF mem(11)] sc [OF mem(12)]
          cf [OF mem(1)] cf [OF mem(2)] cf [OF mem(3)] cf [OF mem(4)] cf [OF mem(5)]
          cf [OF mem(6)] cf [OF mem(7)] cf [OF mem(8)] cf [OF mem(9)]
          cm [OF mem(10)] cs [OF mem(11)] cs [OF mem(12)])
qed

text \<open>
  C4 (as amended). For every non-empty filter and every name that is not one of the
  field names of the schema, adding the name to the filter, with either value, leaves
  the result of comparing any two instances unchanged.
\<close>

theorem unrecognized_name_ignored:
  assumes "0 < len_map flt" and "name \<notin> set schema_fields"
  shows "compareInstances a b (fmupd name v flt) = compareInstances a b flt"
proof (rule compareInstances_filter_cong)
  show "(len_map (fmupd name v flt) = 0) = (len_map flt = 0)"
    using assms(1) len_map_upd [of name v flt] by simp
next
  fix n assume "n \<in> set schema_fields"
  then have "n \<noteq> name" using assms(2) by auto
  then show "index_bool (fmupd name v flt) n = index_bool flt n"
    by (simp add: index_bool_upd)
qed

lemmas engine_defs =
  compareInstances_def CompareInstances_def compare_def compareField_def compareMap_def
  compareSlice_def shouldCompare_def index_bool_def go_append_def sort_Strings_def
  slices_Equal_def FlattenBlockDevices_def worker_task_def

lemmas example_defs = blank_def aws_i1_def tf_i1_def only_tags_def

lemma DriftDetected_aws_tf_all: "DriftDetected (compareInstances aws_i1 tf_i1 fmempty)"
  by (simp add: engine_defs example_defs)

lemma DriftDetected_aws_tf_bogus: "\<not> DriftDetected (compareInstances aws_i1 tf_i1 (fmupd ''bogus'' True fmempty))"
  by (simp add: engine_defs example_defs)

text \<open>
  C4 as stated fails at the empty filter: it compares every field, and once an
  unrecognized name is added the filter is non-empty and matches no field, so the
  difference in the instance type is no longer reported.
\<close>

theorem unrecognized_name_counterexample:
  "''bogus'' \<notin> set schema_fields
   \<and> compareInstances aws_i1 tf_i1 (fmupd ''bogus'' True fmempty)
       \<noteq> compareInstances aws_i1 tf_i1 fmempty"
proof -
  have "''bogus'' \<notin> set schema_fields" by (simp add: schema_fields_def)
  moreover have "compareInstances aws_i1 tf_i1 (fmupd ''bogus'' True fmempty)
       \<noteq> compareInstances aws_i1 tf_i1 fmempty"
    using DriftDetected_aws_tf_all DriftDetected_aws_tf_bogus by metis
  ultimately show ?thesis by simp
qed

theorem unrecognized_name_ignored_witness:
  "0 < len_map only_tags \<and> ''bogus'' \<notin> set schema_fields
   \<and> compareInstances aws_i1 tf_i1 (fmupd ''bogus'' True only_tags)
       = compareInstances aws_i1 tf_i1 only_tags"
  using unrecognized_name_ignored [of only_tags "''bogus''" aws_i1 tf_i1 True]
  by (simp add: only_tags_def schema_fields_def)

subsection \<open>Order independence\<close>

lemma flatten_loop_eq: "flatten_loop ds flat = flat @ map flat_key ds"
  by (induction ds arbitrary: flat) (simp_all add: flat_key_def)

lemma elems_FlattenBlockDevices: "elems (FlattenBlockDevices s) = map flat_key (elems s)"
  by (simp add: FlattenBlockDevices_def flatten_loop_eq)

lemma FlattenBlockDevices_eq: "FlattenBlockDevices s = Some (map flat_key (elems s))"
  by (simp add: FlattenBlockDevices_def flatten_loop_eq)

lemma go_append_empty_eq: "go_append (Some []) s = Some (elems s)"
  by (simp add: go_append_def split: list.split)

lemma elems_go_append_nil: "elems (go_append None s) = elems s"
  by (simp add: go_append_def split: list.split)

lemma elems_sort_Strings: "elems (sort_Strings s) = sort (elems s)"
  by (cases s) (simp_all add: sort_Strings_def)

lemma sort_sort: "sort (sort xs) = sort (xs :: string list)"
  by (simp add: sort_key_id_if_sorted)

lemma sort_cong_mset: "mset xs = mset ys \<Longrightarrow> sort xs = sort (ys :: string list)"
  by (rule properties_for_sort) simp_all

lemma perm_slice_elems: "perm_slice s s' \<Longrightarrow> mset (elems s) = mset (elems s')"
  by (cases s; cases s') simp_all

lemma perm_sort_append:
  "perm_slice s s' \<Longrightarrow>
     sort_Strings (go_append (Some []) s') = sort_Strings (go_append (Some []) s)"
  by (simp add: go_append_empty_eq sort_Strings_def sort_cong_mset [OF perm_slice_elems])

lemma perm_sort_flatten:
  assumes "perm_slice s s'"
  shows "sort_Strings (FlattenBlockDevices s') = sort_Strings (FlattenBlockDevices s)"
proof -
  have "mset (map flat_key (elems s')) = mset (map flat_key (elems s))"
    using perm_slice_elems [OF assms] by simp
  then show ?thesis
    by (simp add: FlattenBlockDevices_eq sort_Strings_def sort_cong_mset)
qed

lemma lookup_slice_step:
  "fmlookup (slice_step field x y flt out) n =
     (if n = field \<and> shouldCompare flt field \<and> sort (elems x) \<noteq> sort (elems y)
      then Some \<lparr>AWS = ASlice (sort_Strings (go_append None (sort_Strings x))),
                 Terraform = ASlice (sort_Strings (go_append None (sort_Strings y)))\<rparr>
      else fmlookup out n)"
  by (simp add: slice_step_def lookup_compareSlice slices_Equal_def elems_sort_Strings
        elems_go_append_nil sort_sort)

lemma lookup_tags_step:
  "fmlookup (tags_step a b flt out) n =
     (if n = ''tags'' \<and> shouldCompare flt ''tags'' \<and> Tags a \<noteq> Tags b
      then Some \<lparr>AWS = AMap (Tags a), Terraform = AMap (Tags b)\<rparr> else fmlookup out n)"
  by (simp add: tags_step_def lookup_compareMap)



lemma lookup_scalar_step_other:
  "fmlookup (scalar_step a b flt) ''tags'' = None"
  "fmlookup (scalar_step a b flt) ''security_groups'' = None"
  "fmlookup (scalar_step a b flt) ''block_device_mappings'' = None"
  by (simp_all add: scalar_step_def lookup_compareField)

lemma lookup_security_groups:
  "fmlookup (Differences (compareInstances a b flt)) ''security_groups'' =
     (if shouldCompare flt ''security_groups''
         \<and> sort (elems (SecurityGroups a)) \<noteq> sort (elems (SecurityGroups b))
      then Some \<lparr>AWS = ASlice (sort_Strings (go_append None
                            (sort_Strings (go_append (Some []) (SecurityGroups a))))),
                 Terraform = ASlice (sort_Strings (go_append None
                            (sort_Strings (go_append (Some []) (SecurityGroups b)))))\<rparr>
      else None)"
  by (simp add: compareInstances_Differences lookup_slice_step lookup_tags_step
        lookup_scalar_step_other go_append_empty_eq)

lemma lookup_block_device_mappings:
  "fmlookup (Differences (compareInstances a b flt)) ''block_device_mappings'' =
     (if shouldCompare flt ''block_device_mappings''
         \<and> sort (map flat_key (elems (BlockDeviceMappings a)))
             \<noteq> sort (map flat_key (elems (BlockDeviceMappings b)))
      then Some \<lparr>AWS = ASlice (sort_Strings (go_append None
                            (sort_Strings (FlattenBlockDevices (BlockDeviceMappings a))))),
                 Terraform = ASlice (sort_Strings (go_append None
                            (sort_Strings (FlattenBlockDevices (BlockDeviceMappings b)))))\<rparr>
      else None)"
  by (simp add: compareInstances_Differences lookup_slice_step lookup_tags_step
        lookup_scalar_step_other elems_FlattenBlockDevices)

lemma stores_security_groups:
  "stores (fmlookup (Differences (compareInstances a b flt)) ''security_groups'')
     (elems (SecurityGroups a)) (elems (SecurityGroups b))"
  by (simp add: lookup_security_groups stores_def elems_sort_Strings elems_go_append_nil
        go_append_empty_eq sort_sort)

lemma stores_block_device_mappings:
  "stores (fmlookup (Differences (compareInstances a b flt)) ''block_device_mappings'')
     (map flat_key (elems (BlockDeviceMappings a))) (map flat_key (elems (BlockDeviceMappings b)))"
  by (simp add: lookup_block_device_mappings stores_def elems_sort_Strings elems_go_append_nil
        elems_FlattenBlockDevices sort_sort)



lemma compareInstances_eqI:
  assumes "EC2Instance.InstanceID a = EC2Instance.InstanceID a'"
    and "Differences (compareInstances a b flt) = Differences (compareInstances a' b' flt')"
  shows "compareInstances a b flt = compareInstances a' b' flt'"
proof (rule DriftResult.equality)
  show "DriftResult.InstanceID (compareInstances a b flt)
      = DriftResult.InstanceID (compareInstances a' b' flt')"
    by (simp add: compareInstances_InstanceID assms(1))
  show "DriftDetected (compareInstances a b flt) = DriftDetected (compareInstances a' b' flt')"
    by (simp add: compareInstances_DriftDetected assms(2))
qed (simp_all add: assms(2))

lemma compareInstances_permuted:
  assumes "perm_slice (SecurityGroups a) sga" and "perm_slice (BlockDeviceMappings a) bda"
    and "perm_slice (SecurityGroups b) sgb" and "perm_slice (BlockDeviceMappings b) bdb"
  shows "compareInstances (a\<lparr>SecurityGroups := sga, BlockDeviceMappings := bda\<rparr>)
           (b\<lparr>SecurityGroups := sgb, BlockDeviceMappings := bdb\<rparr>) flt
         = compareInstances a b flt"
proof (rule compareInstances_eqI)
  let ?a = "a\<lparr>SecurityGroups := sga, BlockDeviceMappings := bda\<rparr>"
  let ?b = "b\<lparr>SecurityGroups := sgb, BlockDeviceMappings := bdb\<rparr>"
  have sc: "scalar_step ?a ?b flt = scalar_step a b flt"
    by (simp add: scalar_step_def)
  have tg: "\<And>out. tags_step ?a ?b flt out = tags_step a b flt out"
    by (simp add: tags_step_def)
  have sg: "sort_Strings (go_append (Some []) (SecurityGroups ?a))
        = sort_Strings (go_append (Some []) (SecurityGroups a))"
      "sort_Strings (go_append (Some []) (SecurityGroups ?b))
        = sort_Strings (go_append (Some []) (SecurityGroups b))"
    using perm_sort_append [OF assms(1)] perm_sort_append [OF assms(3)] by simp_all
  have bd: "sort_Strings (FlattenBlockDevices (BlockDeviceMappings ?a))
        = sort_Strings (FlattenBlockDevices (BlockDeviceMappings a))"
      "sort_Strings (FlattenBlockDevices (BlockDeviceMappings ?b))
        = sort_Strings (FlattenBlockDevices (BlockDeviceMappings b))"
    using perm_sort_flatten [OF assms(2)] perm_sort_flatten [OF assms(4)] by simp_all
  show "Differences (compareInstances ?a ?b flt) = Differences (compareInstances a b flt)"
    by (simp only: compareInstances_Differences slice_step_def sc tg sg bd)
qed simp

text \<open>
  C6. For every pair of instances and every filter, replacing the security-group
  slice and the block-device slice of either instance by permutations of themselves
  does not change the result of \<open>compareInstances\<close>; and an entry stored for
  \<open>security_groups\<close> or \<open>block_device_mappings\<close> holds the sorted security groups,
  respectively the sorted flattened block devices, of the two instances.
\<close>

theorem order_independence:
  assumes "perm_slice (SecurityGroups a) sga" and "perm_slice (BlockDeviceMappings a) bda"
    and "perm_slice (SecurityGroups b) sgb" and "perm_slice (BlockDeviceMappings b) bdb"
  shows "compareInstances (a\<lparr>SecurityGroups := sga, BlockDeviceMappings := bda\<rparr>)
           (b\<lparr>SecurityGroups := sgb, BlockDeviceMappings := bdb\<rparr>) flt
         = compareInstances a b flt
       \<and> stores (fmlookup (Differences (compareInstances a b flt)) ''security_groups'')
           (elems (SecurityGroups a)) (elems (SecurityGroups b))
       \<and> stores (fmlookup (Differences (compareInstances a b flt)) ''block_device_mappings'')
           (map flat_key (elems (BlockDeviceMappings a)))
           (map flat_key (elems (BlockDeviceMappings b)))"
  using compareInstances_permuted [OF assms] stores_security_groups stores_block_device_mappings
  by simp


theorem order_independence_witness:
  "perm_slice (SecurityGroups aws_sg) (Some [''sg-1'', ''sg-2''])
   \<and> perm_slice (BlockDeviceMappings aws_sg)
        (Some [\<lparr>DeviceName = ''/dev/sda'', VolumeID = ''vol-1''\<rparr>,
               \<lparr>DeviceName = ''/dev/sdb'', VolumeID = ''vol-2''\<rparr>])
   \<and> perm_slice (SecurityGroups tf_sg) (Some [''sg-1'', ''sg-3''])
   \<and> perm_slice (BlockDeviceMappings tf_sg) None
   \<and> compareInstances
        (aws_sg\<lparr>SecurityGroups := Some [''sg-1'', ''sg-2''],
                BlockDeviceMappings :=
                  Some [\<lparr>DeviceName = ''/dev/sda'', VolumeID = ''vol-1''\<rparr>,
                        \<lparr>DeviceName = ''/dev/sdb'', VolumeID = ''vol-2''\<rparr>]\<rparr>)
        (tf_sg\<lparr>SecurityGroups := Some [''sg-1'', ''sg-3''], BlockDeviceMappings := None\<rparr>)
        fmempty
       = compareInstances aws_sg tf_sg fmempty
   \<and> fmlookup (Differences (compareInstances aws_sg tf_sg fmempty)) ''security_groups''
       = Some \<lparr>AWS = ASlice (Some [''sg-1'', ''sg-2'']),
               Terraform = ASlice (Some [''sg-1'', ''sg-3''])\<rparr>
   \<and> fmlookup (Differences (compareInstances aws_sg tf_sg fmempty)) ''block_device_mappings''
       = Some \<lparr>AWS = ASlice (Some [''/dev/sda|vol-1'', ''/dev/sdb|vol-2'']),
               Terraform = ASlice None\<rparr>"
proof -
  have p: "perm_slice (SecurityGroups aws_sg) (Some [''sg-1'', ''sg-2''])"
    "perm_slice (BlockDeviceMappings aws_sg)
        (Some [\<lparr>DeviceName = ''/dev/sda'', VolumeID = ''vol-1''\<rparr>,
               \<lparr>DeviceName = ''/dev/sdb'', VolumeID = ''vol-2''\<rparr>])"
    "perm_slice (SecurityGroups tf_sg) (Some [''sg-1'', ''sg-3''])"
    "perm_slice (BlockDeviceMappings tf_sg) None"
    by (simp_all add: aws_sg_def tf_sg_def blank_def)
  have l: "fmlookup (Differences (compareInstances aws_sg tf_sg fmempty)) ''security_groups''
       = Some \<lparr>AWS = ASlice (Some [''sg-1'', ''sg-2'']),
               Terraform = ASlice (Some [''sg-1'', ''sg-3''])\<rparr>"
    "fmlookup (Differences (compareInstances aws_sg tf_sg fmempty)) ''block_device_mappings''
       = Some \<lparr>AWS = ASlice (Some [''/dev/sda|vol-1'', ''/dev/sdb|vol-2'']),
               Terraform = ASlice None\<rparr>"
    by (simp_all add: lookup_security_groups lookup_block_device_mappings aws_sg_def tf_sg_def
          blank_def shouldCompare_def go_append_def sort_Strings_def FlattenBlockDevices_def flat_key_def)
  show ?thesis
    using order_independence [OF p, of fmempty] p l by simp
qed

subsection \<open>The legacy and the current comparator\<close>

lemma compare_scalar:
  "compare flt field (AString x) (AString y) out = compareField AString field x y flt out"
  "compare flt field (ABool p) (ABool q) out = compareField ABool field p q flt out"
  by (auto simp: compare_def compareField_def not_shouldCompare)

lemma compare_map:
  "compare flt field (AMap x) (AMap y) out = compareMap field x y flt out"
  by (auto simp: compare_def compareMap_def not_shouldCompare)

lemma CompareInstances_Differences:
  "Differences (CompareInstances a b flt) =
     legacy_slice_step ''block_device_mappings''
       (FlattenBlockDevices (BlockDeviceMappings a)) (FlattenBlockDevices (BlockDeviceMappings b)) flt
       (legacy_slice_step ''security_groups''
          (go_append (Some []) (SecurityGroups a)) (go_append (Some []) (SecurityGroups b)) flt
          (tags_step a b flt (scalar_step a b flt)))"
  by (simp only: CompareInstances_def Let_def DriftResult.select_convs scalar_step_def
        tags_step_def legacy_slice_step_def compare_scalar compare_map)

lemma CompareInstances_InstanceID:
  "DriftResult.InstanceID (CompareInstances a b flt) = EC2Instance.InstanceID a"
  by (simp only: CompareInstances_def Let_def DriftResult.select_convs)

lemma CompareInstances_DriftDetected:
  "DriftDetected (CompareInstances a b flt) = (0 < len_map (Differences (CompareInstances a b flt)))"
  by (simp only: CompareInstances_def Let_def DriftResult.select_convs)

lemma sort_Strings_eqD: "sort_Strings x = sort_Strings y \<Longrightarrow> sort (elems x) = sort (elems y)"
  by (metis elems_sort_Strings)

lemma lookup_legacy_slice_step:
  "fmlookup (legacy_slice_step field x y flt out) n =
     (if n = field \<and> shouldCompare flt field \<and> sort (elems x) \<noteq> sort (elems y)
      then Some \<lparr>AWS = ASlice (sort_Strings x), Terraform = ASlice (sort_Strings y)\<rparr>
      else fmlookup out n)"
  by (auto simp: legacy_slice_step_def compare_def slices_Equal_def elems_sort_Strings
        dest: sort_Strings_eqD)

lemma norm_sorted_copy:
  "norm_any (ASlice (sort_Strings (go_append None (sort_Strings s)))) = norm_any (ASlice (sort_Strings s))"
  by (simp add: elems_sort_Strings elems_go_append_nil sort_sort)

lemma norm_slice_step:
  assumes "fmmap norm_diff out = fmmap norm_diff out'"
  shows "fmmap norm_diff (legacy_slice_step field x y flt out)
       = fmmap norm_diff (slice_step field x y flt out')"
proof (rule fmap_ext)
  fix n
  have "fmlookup (fmmap norm_diff out) n = fmlookup (fmmap norm_diff out') n"
    using assms by simp
  then have "map_option norm_diff (fmlookup out n) = map_option norm_diff (fmlookup out' n)"
    by simp
  then show "fmlookup (fmmap norm_diff (legacy_slice_step field x y flt out)) n
           = fmlookup (fmmap norm_diff (slice_step field x y flt out')) n"
    by (simp add: lookup_legacy_slice_step lookup_slice_step norm_diff_def norm_sorted_copy
          del: norm_any.simps)
qed

lemma len_map_fmdom: "fmdom m = fmdom m' \<Longrightarrow> len_map m = len_map m'"
  by (simp add: len_map_def)

lemma fmdom_norm: "fmmap f m = fmmap f m' \<Longrightarrow> fmdom m = fmdom m'"
  by (metis fmdom_map)

text \<open>
  C10 (as amended). For every pair of instances and every filter, the legacy
  \<open>CompareInstances\<close> and the current \<open>compareInstances\<close> return the same identifier,
  the same drift flag and differences for the same field names, and the stored values
  are equal up to the difference between a nil and an empty slice.
\<close>

theorem legacy_equivalence:
  "norm_result (CompareInstances a b flt) = norm_result (compareInstances a b flt)
   \<and> DriftResult.InstanceID (CompareInstances a b flt)
       = DriftResult.InstanceID (compareInstances a b flt)
   \<and> DriftDetected (CompareInstances a b flt) = DriftDetected (compareInstances a b flt)
   \<and> fmdom (Differences (CompareInstances a b flt)) = fmdom (Differences (compareInstances a b flt))"
proof -
  have n: "fmmap norm_diff (Differences (CompareInstances a b flt))
         = fmmap norm_diff (Differences (compareInstances a b flt))"
    unfolding CompareInstances_Differences compareInstances_Differences
    by (intro norm_slice_step refl)
  then have d: "fmdom (Differences (CompareInstances a b flt))
              = fmdom (Differences (compareInstances a b flt))"
    by (rule fmdom_norm)
  have i: "DriftResult.InstanceID (CompareInstances a b flt)
       = DriftResult.InstanceID (compareInstances a b flt)"
    by (simp add: CompareInstances_InstanceID compareInstances_InstanceID)
  have f: "DriftDetected (CompareInstances a b flt) = DriftDetected (compareInstances a b flt)"
    by (simp add: CompareInstances_DriftDetected compareInstances_DriftDetected
          len_map_fmdom [OF d])
  have "norm_result (CompareInstances a b flt) = norm_result (compareInstances a b flt)"
    by (rule DriftResult.equality) (simp_all add: norm_result_def n i f)
  then show ?thesis using d i f by simp
qed

text \<open>
  C10 as stated fails when a slice field differs and one side has no element: the
  legacy comparator stores the empty non-nil slice it sorted, the current one stores
  the nil slice that \<open>append([]string(nil), a...)\<close> returns in \<open>compareSlice\<close>. Here
  the declared instance has no block device.
\<close>

theorem legacy_equivalence_counterexample:
  "fmlookup (Differences (CompareInstances aws_sg tf_sg fmempty)) ''block_device_mappings''
     = Some \<lparr>AWS = ASlice (Some [''/dev/sda|vol-1'', ''/dev/sdb|vol-2'']),
             Terraform = ASlice (Some [])\<rparr>
   \<and> fmlookup (Differences (compareInstances aws_sg tf_sg fmempty)) ''block_device_mappings''
     = Some \<lparr>AWS = ASlice (Some [''/dev/sda|vol-1'', ''/dev/sdb|vol-2'']),
             Terraform = ASlice None\<rparr>
   \<and> CompareInstances aws_sg tf_sg fmempty \<noteq> compareInstances aws_sg tf_sg fmempty"
proof -
  have l: "fmlookup (Differences (CompareInstances aws_sg tf_sg fmempty)) ''block_device_mappings''
     = Some \<lparr>AWS = ASlice (Some [''/dev/sda|vol-1'', ''/dev/sdb|vol-2'']),
             Terraform = ASlice (Some [])\<rparr>"
    by (simp add: CompareInstances_Differences lookup_legacy_slice_step aws_sg_def tf_sg_def
          blank_def shouldCompare_def sort_Strings_def FlattenBlockDevices_def)
  have c: "fmlookup (Differences (compareInstances aws_sg tf_sg fmempty)) ''block_device_mappings''
     = Some \<lparr>AWS = ASlice (Some [''/dev/sda|vol-1'', ''/dev/sdb|vol-2'']),
             Terraform = ASlice None\<rparr>"
    by (simp add: lookup_block_device_mappings aws_sg_def tf_sg_def
          blank_def shouldCompare_def go_append_def sort_Strings_def FlattenBlockDevices_def flat_key_def)
  have "CompareInstances aws_sg tf_sg fmempty \<noteq> compareInstances aws_sg tf_sg fmempty"
  proof
    assume "CompareInstances aws_sg tf_sg fmempty = compareInstances aws_sg tf_sg fmempty"
    then have "fmlookup (Differences (CompareInstances aws_sg tf_sg fmempty)) ''block_device_mappings''
      = fmlookup (Differences (compareInstances aws_sg tf_sg fmempty)) ''block_device_mappings''"
      by simp
    then show False by (simp add: l c)
  qed
  then show ?thesis using l c by simp
qed

theorem legacy_equivalence_witness:
  "norm_result (CompareInstances aws_sg tf_sg fmempty)
     = norm_result (compareInstances aws_sg tf_sg fmempty)
   \<and> DriftDetected (CompareInstances aws_sg tf_sg fmempty)
   \<and> DriftDetected (compareInstances aws_sg tf_sg fmempty)"
proof -
  have "DriftDetected (compareInstances aws_sg tf_sg fmempty)"
    by (simp add: engine_defs aws_sg_def tf_sg_def blank_def)
  then show ?thesis
    using legacy_equivalence [of aws_sg tf_sg fmempty] by simp
qed

subsection \<open>Absent and empty values\<close>

text \<open>
  Where the two instances have the same security groups and the same block devices,
  nil or empty, no difference is stored for these fields.
\<close>

lemma absent_slices_equal_empty:
  assumes "elems (SecurityGroups a) = elems (SecurityGroups b)"
    and "elems (BlockDeviceMappings a) = elems (BlockDeviceMappings b)"
  shows "fmlookup (Differences (compareInstances a b flt)) ''security_groups'' = None"
    and "fmlookup (Differences (compareInstances a b flt)) ''block_device_mappings'' = None"
  by (simp_all add: lookup_security_groups lookup_block_device_mappings assms)

lemma lookup_tags:
  "fmlookup (Differences (compareInstances a b flt)) ''tags'' =
     (if shouldCompare flt ''tags'' \<and> Tags a \<noteq> Tags b
      then Some \<lparr>AWS = AMap (Tags a), Terraform = AMap (Tags b)\<rparr> else None)"
  by (simp add: compareInstances_Differences lookup_slice_step lookup_tags_step
        lookup_scalar_step_other)

text \<open>
  C3 at the input on which the code departs from it. The observed instance has nil
  tags, the declared one an empty non-nil tag map, the filter is empty: a difference
  is stored for \<open>tags\<close> and drift is reported, since \<open>reflect.DeepEqual\<close> tells a nil
  map from an empty one.
\<close>

theorem absent_tags_differ_from_empty:
  "fmlookup (Differences (compareInstances (blank\<lparr>Tags := None\<rparr>)
       (blank\<lparr>Tags := Some fmempty\<rparr>) fmempty)) ''tags''
     = Some \<lparr>AWS = AMap None, Terraform = AMap (Some fmempty)\<rparr>
   \<and> DriftDetected (compareInstances (blank\<lparr>Tags := None\<rparr>)
       (blank\<lparr>Tags := Some fmempty\<rparr>) fmempty)"
  by (simp add: engine_defs blank_def)

subsection \<open>The dispatcher: invariants, progress and termination\<close>

lemma in_flight_update:
  "i < length ws \<Longrightarrow>
     mset (in_flight (ws[i := w])) + mset (held (ws ! i)) = mset (in_flight ws) + mset (held w)"
proof (induction ws arbitrary: i)
  case Nil
  then show ?case by simp
next
  case (Cons v vs)
  show ?case
  proof (cases i)
    case 0
    then show ?thesis by (simp add: in_flight_def)
  next
    case (Suc j)
    then have "j < length vs" using Cons.prems by simp
    from Cons.IH [OF this] show ?thesis
      using Suc by (simp add: in_flight_def ac_simps)
  qed
qed

lemma weight_update:
  "i < length ws \<Longrightarrow>
     sum_list (map weight (ws[i := w])) + weight (ws ! i) = sum_list (map weight ws) + weight w"
proof (induction ws arbitrary: i)
  case Nil
  then show ?case by simp
next
  case (Cons v vs)
  show ?case
  proof (cases i)
    case 0
    then show ?thesis by simp
  next
    case (Suc j)
    then have "j < length vs" using Cons.prems by simp
    from Cons.IH [OF this] show ?thesis
      using Suc by simp
  qed
qed

lemma accounted_init: "accounted tfMap flt awsInstances (init c awsInstances)"
  by (simp add: accounted_def init_def in_flight_def)

lemma consistent_init: "consistent (init c awsInstances)"
  by (simp add: consistent_def init_def all_exited_def)

lemma accounted_step:
  assumes "accounted tfMap flt awsInstances s" and "step tfMap flt e s = Some s'"
  shows "accounted tfMap flt awsInstances s'"
proof (cases e)
  case (Feed i)
  then obtain a rest where q: "queue s = a # rest" and sel: "at_select s i"
    and s': "s' = s\<lparr>queue := rest, workers := (workers s)[i := Sending (worker_task tfMap flt a)]\<rparr>"
    using assms(2) by (auto split: list.splits if_splits)
  have "mset (in_flight ((workers s)[i := Sending (worker_task tfMap flt a)]))
      = mset (in_flight (workers s)) + {#worker_task tfMap flt a#}"
    using in_flight_update [of i "workers s" "Sending (worker_task tfMap flt a)"] sel
    by (simp add: at_select_def)
  then show ?thesis
    using assms(1) by (simp add: accounted_def s' q)
next
  case (Collect i)
  then obtain r where i: "i < length (workers s)" and w: "workers s ! i = Sending r"
    and s': "s' = s\<lparr>results := results s @ [r], workers := (workers s)[i := Selecting]\<rparr>"
    using assms(2) by (auto split: worker.splits if_splits)
  have "mset (in_flight (workers s)) = add_mset r (mset (in_flight ((workers s)[i := Selecting])))"
    using in_flight_update [OF i, of Selecting] w by simp
  then show ?thesis
    using assms(1) by (simp add: accounted_def s')
next
  case (SeeDone i)
  then have sel: "at_select s i" and s': "s' = s\<lparr>workers := (workers s)[i := Exited]\<rparr>"
    using assms(2) by (auto split: if_splits)
  have "mset (in_flight ((workers s)[i := Exited])) = mset (in_flight (workers s))"
    using in_flight_update [of i "workers s" Exited] sel by (simp add: at_select_def)
  then show ?thesis
    using assms(1) by (simp add: accounted_def s')
next
  case (SeeClosed i)
  then have sel: "at_select s i" and s': "s' = s\<lparr>workers := (workers s)[i := Exited]\<rparr>"
    using assms(2) by (auto split: if_splits)
  have "mset (in_flight ((workers s)[i := Exited])) = mset (in_flight (workers s))"
    using in_flight_update [of i "workers s" Exited] sel by (simp add: at_select_def)
  then show ?thesis
    using assms(1) by (simp add: accounted_def s')
qed (use assms in \<open>auto simp: accounted_def split: if_splits\<close>)

lemma set_update_Exited:
  "i < length ws \<Longrightarrow> ws ! i \<noteq> Exited \<Longrightarrow> w \<noteq> Exited \<Longrightarrow>
     Exited \<in> set (ws[i := w]) \<longleftrightarrow> Exited \<in> set ws"
  by (metis in_set_conv_nth length_list_update nth_list_update_eq nth_list_update_neq)

lemma consistent_step:
  assumes "consistent s" and "step tfMap flt e s = Some s'"
  shows "consistent s'"
proof (cases e)
  case (Feed i)
  then obtain a rest where q: "queue s = a # rest" and sel: "at_select s i"
    and s': "s' = s\<lparr>queue := rest, workers := (workers s)[i := Sending (worker_task tfMap flt a)]\<rparr>"
    using assms(2) by (auto split: list.splits if_splits)
  have nc: "\<not> tasks_closed s" "\<not> results_closed s"
    using assms(1) q sel by (auto simp: consistent_def all_exited_def at_select_def list_all_length)
  have "Exited \<in> set ((workers s)[i := Sending (worker_task tfMap flt a)]) \<longleftrightarrow> Exited \<in> set (workers s)"
    using sel by (intro set_update_Exited) (simp_all add: at_select_def)
  then show ?thesis
    using assms(1) nc by (simp add: consistent_def s')
next
  case (Collect i)
  then obtain r where i: "i < length (workers s)" and w: "workers s ! i = Sending r"
    and s': "s' = s\<lparr>results := results s @ [r], workers := (workers s)[i := Selecting]\<rparr>"
    using assms(2) by (auto split: worker.splits if_splits)
  have nc: "\<not> results_closed s"
    using assms(1) i w by (auto simp: consistent_def all_exited_def list_all_length)
  have "Exited \<in> set ((workers s)[i := Selecting]) \<longleftrightarrow> Exited \<in> set (workers s)"
    using i w by (intro set_update_Exited) simp_all
  then show ?thesis
    using assms(1) nc by (simp add: consistent_def s')
next
  case (SeeDone i)
  then have sel: "at_select s i" and c: "cancelled s"
    and s': "s' = s\<lparr>workers := (workers s)[i := Exited]\<rparr>"
    using assms(2) by (auto split: if_splits)
  have nc: "\<not> results_closed s"
    using assms(1) sel by (auto simp: consistent_def all_exited_def at_select_def list_all_length)
  show ?thesis
    using assms(1) nc c by (simp add: consistent_def s')
next
  case (SeeClosed i)
  then have sel: "at_select s i" and c: "tasks_closed s"
    and s': "s' = s\<lparr>workers := (workers s)[i := Exited]\<rparr>"
    using assms(2) by (auto split: if_splits)
  have nc: "\<not> results_closed s"
    using assms(1) sel by (auto simp: consistent_def all_exited_def at_select_def list_all_length)
  show ?thesis
    using assms(1) nc c by (simp add: consistent_def s')
qed (use assms in \<open>auto simp: consistent_def all_exited_def split: if_splits\<close>)

lemma steps_left_step:
  assumes "step tfMap flt e s = Some s'"
  shows "Suc (steps_left s') = steps_left s"
proof (cases e)
  case (Feed i)
  then obtain a rest where q: "queue s = a # rest" and sel: "at_select s i"
    and s': "s' = s\<lparr>queue := rest, workers := (workers s)[i := Sending (worker_task tfMap flt a)]\<rparr>"
    using assms by (auto split: list.splits if_splits)
  show ?thesis
    using weight_update [of i "workers s" "Sending (worker_task tfMap flt a)"] sel
    by (simp add: steps_left_def s' q at_select_def)
next
  case (Collect i)
  then obtain r where i: "i < length (workers s)" and w: "workers s ! i = Sending r"
    and s': "s' = s\<lparr>results := results s @ [r], workers := (workers s)[i := Selecting]\<rparr>"
    using assms by (auto split: worker.splits if_splits)
  show ?thesis
    using weight_update [OF i, of Selecting] w by (simp add: steps_left_def s')
next
  case (SeeDone i)
  then have sel: "at_select s i" and s': "s' = s\<lparr>workers := (workers s)[i := Exited]\<rparr>"
    using assms by (auto split: if_splits)
  show ?thesis
    using weight_update [of i "workers s" Exited] sel
    by (simp add: steps_left_def s' at_select_def)
next
  case (SeeClosed i)
  then have sel: "at_select s i" and s': "s' = s\<lparr>workers := (workers s)[i := Exited]\<rparr>"
    using assms by (auto split: if_splits)
  show ?thesis
    using weight_update [of i "workers s" Exited] sel
    by (simp add: steps_left_def s' at_select_def)
qed (use assms in \<open>auto simp: steps_left_def split: if_splits\<close>)

lemma run_induct_facts:
  assumes "run tfMap flt sched s = Some s'"
  shows "length sched + steps_left s' = steps_left s"
    and "consistent s \<Longrightarrow> consistent s'"
    and "accounted tfMap flt awsInstances s \<Longrightarrow> accounted tfMap flt awsInstances s'"
  using assms
proof (induction sched arbitrary: s)
  case Nil
  { case 1 then show ?case by simp }
  { case 2 then show ?case by simp }
  { case 3 then show ?case by simp }
next
  case (Cons e es)
  { case 1
    then obtain t where t: "step tfMap flt e s = Some t" "run tfMap flt es t = Some s'"
      by (auto split: option.splits)
    then show ?case using Cons.IH(1) [OF t(2)] steps_left_step [OF t(1)] by simp }
  { case 2
    then obtain t where t: "step tfMap flt e s = Some t" "run tfMap flt es t = Some s'"
      by (auto split: option.splits)
    then show ?case using Cons.IH(2) [OF _ t(2)] consistent_step [OF _ t(1)] 2 by simp }
  { case 3
    then obtain t where t: "step tfMap flt e s = Some t" "run tfMap flt es t = Some s'"
      by (auto split: option.splits)
    then show ?case using Cons.IH(3) [OF _ t(2)] accounted_step [OF _ t(1)] 3 by simp }
qed


lemma progress:
  assumes "\<not> results_closed s"
  shows "\<exists>e s'. e \<noteq> Cancel \<and> step tfMap flt e s = Some s'"
proof (cases "\<exists>i r. i < length (workers s) \<and> workers s ! i = Sending r")
  case True
  then obtain i r where "i < length (workers s)" "workers s ! i = Sending r" by blast
  then have "step tfMap flt (Collect i) s \<noteq> None" by simp
  then show ?thesis by blast
next
  case no_send: False
  show ?thesis
  proof (cases "\<exists>i. at_select s i")
    case True
    then obtain i where i: "at_select s i" by blast
    show ?thesis
    proof (cases "queue s")
      case (Cons a rest)
      then have "step tfMap flt (Feed i) s \<noteq> None" using i by simp
      then show ?thesis by blast
    next
      case Nil
      show ?thesis
      proof (cases "tasks_closed s")
        case True
        then have "step tfMap flt (SeeClosed i) s \<noteq> None" using i by simp
        then show ?thesis by blast
      next
        case False
        then have "step tfMap flt CloseTasks s \<noteq> None" using Nil by simp
        then show ?thesis by blast
      qed
    qed
  next
    case False
    have "w = Exited" if w: "w \<in> set (workers s)" for w
    proof -
      obtain i where i: "i < length (workers s)" "workers s ! i = w"
        using w unfolding in_set_conv_nth by blast
      then show ?thesis
        using False no_send by (cases w) (auto simp: at_select_def)
    qed
    then have "list_all (\<lambda>w. w = Exited) (workers s)"
      by (simp add: list_all_iff)
    then have "step tfMap flt CloseResults s \<noteq> None" using assms by simp
    then show ?thesis by blast
  qed
qed

lemma run_append:
  "run tfMap flt (xs @ ys) s =
     (case run tfMap flt xs s of None \<Rightarrow> None | Some t \<Rightarrow> run tfMap flt ys t)"
  by (induction xs arbitrary: s) (auto split: option.splits)

lemma completes:
  "\<exists>rest s'. Cancel \<notin> set rest \<and> run tfMap flt rest s = Some s' \<and> results_closed s'"
proof (induction "steps_left s" arbitrary: s rule: less_induct)
  case less
  show ?case
  proof (cases "results_closed s")
    case True
    then have "Cancel \<notin> set [] \<and> run tfMap flt [] s = Some s \<and> results_closed s" by simp
    then show ?thesis by blast
  next
    case False
    then obtain e t where e: "e \<noteq> Cancel" "step tfMap flt e s = Some t"
      using progress by blast
    then have "steps_left t < steps_left s"
      using steps_left_step [OF e(2)] by simp
    from less [OF this] obtain rest s' where
      r: "Cancel \<notin> set rest" "run tfMap flt rest t = Some s'" "results_closed s'" by blast
    then have "Cancel \<notin> set (e # rest) \<and> run tfMap flt (e # rest) s = Some s' \<and> results_closed s'"
      using e by simp
    then show ?thesis by blast
  qed
qed

lemma step_cancelled:
  "step tfMap flt e s = Some s' \<Longrightarrow> e \<noteq> Cancel \<Longrightarrow> cancelled s' = cancelled s"
  by (cases e) (auto split: if_splits list.splits worker.splits)

lemma run_cancelled:
  "run tfMap flt sched s = Some s' \<Longrightarrow> Cancel \<notin> set sched \<Longrightarrow> cancelled s' = cancelled s"
proof (induction sched arbitrary: s)
  case Nil
  then show ?case by simp
next
  case (Cons e es)
  then obtain t where t: "step tfMap flt e s = Some t" "run tfMap flt es t = Some s'"
    by (auto split: option.splits)
  moreover have "e \<noteq> Cancel" "Cancel \<notin> set es"
    using Cons.prems(2) by auto
  ultimately show ?case
    using Cons.IH [of t] step_cancelled [of tfMap flt e s t] by simp
qed

lemma steps_left_init: "steps_left (init c awsInstances) \<le> 2 * length awsInstances + 13"
  by (simp add: steps_left_def init_def maxWorkers_def sum_list_replicate)

lemma returned_all:
  assumes "consistent s" and "accounted tfMap flt awsInstances s"
    and "results_closed s"
  shows "mset (results s) + mset (map (worker_task tfMap flt) (queue s))
       = mset (map (worker_task tfMap flt) awsInstances)"
    and "\<not> cancelled s \<Longrightarrow> queue s = []"
proof -
  have ex: "list_all (\<lambda>w. w = Exited) (workers s)" and len: "length (workers s) = maxWorkers"
    using assms(1,3) by (simp_all add: consistent_def all_exited_def)
  have "held w = []" if "w \<in> set (workers s)" for w
    using ex that by (auto simp: list_all_iff)
  then have "in_flight (workers s) = []"
    by (simp add: in_flight_def)
  then show "mset (results s) + mset (map (worker_task tfMap flt) (queue s))
       = mset (map (worker_task tfMap flt) awsInstances)"
    using assms(2) by (simp add: accounted_def)
  have "workers s \<noteq> []" using len by (auto simp: maxWorkers_def)
  then have "Exited \<in> set (workers s)"
    using ex by (cases "workers s") (simp_all)
  then show "queue s = []" if "\<not> cancelled s"
    using assms(1) that by (simp add: consistent_def)
qed

lemma results_sub:
  assumes "accounted tfMap flt awsInstances s"
  shows "mset (results s) \<subseteq># mset (map (worker_task tfMap flt) awsInstances)"
proof -
  have "mset (map (worker_task tfMap flt) awsInstances)
      = mset (results s) + (mset (in_flight (workers s))
          + mset (map (worker_task tfMap flt) (queue s)))"
    using assms by (simp only: accounted_def add.assoc)
  then show ?thesis
    by (simp only: mset_subset_eq_add_left)
qed

lemma worker_task_InstanceID:
  "DriftResult.InstanceID (worker_task tfMap flt a) = EC2Instance.InstanceID a"
  by (simp add: worker_task_def compareInstances_InstanceID split: option.split)

subsection \<open>The dispatcher: results\<close>

lemma ten: "replicate maxWorkers x = [x, x, x, x, x, x, x, x, x, x]"
  by (simp add: maxWorkers_def eval_nat_numeral)

lemma run_all:
  "CompareAllInstances False [aws_i1, aws_i2] [tf_i1] fmempty sched_all = Some final_all"
  by (simp add: CompareAllInstances_def init_def sched_all_def final_all_def at_select_def ten
        eval_nat_numeral)

lemma run_cancelled_example:
  "CompareAllInstances True [aws_i2] [] fmempty sched_cancelled = Some final_cancelled"
  by (simp add: CompareAllInstances_def init_def sched_cancelled_def final_cancelled_def
        at_select_def ten eval_nat_numeral)


lemma len_map_single: "len_map (fmupd k v fmempty) = 1"
  by (simp add: len_map_def fcard_finsert_if)

lemma lookup_build_tfMap:
  "fmlookup (build_tfMap tf m) ident = None \<longleftrightarrow>
     ident \<notin> EC2Instance.InstanceID ` set tf \<and> fmlookup m ident = None"
  by (induction tf arbitrary: m) auto

lemma worker_task_missing:
  assumes "EC2Instance.InstanceID a \<notin> EC2Instance.InstanceID ` set tf"
  shows "worker_task (build_tfMap tf fmempty) flt a = missing_result (EC2Instance.InstanceID a)"
proof -
  have "fmlookup (build_tfMap tf fmempty) (EC2Instance.InstanceID a) = None"
    using assms by (simp add: lookup_build_tfMap)
  then show ?thesis by (simp add: worker_task_def missing_result_def)
qed

lemma length_filter_mset: "length (filter P xs) = size (filter_mset P (mset xs))"
  by (metis mset_filter size_mset)

lemma reachable:
  assumes "CompareAllInstances c aws tf flt sched = Some s"
  shows "consistent s" and "accounted (build_tfMap tf fmempty) flt aws s"
    and "length sched \<le> 2 * length aws + 13"
proof -
  have r: "run (build_tfMap tf fmempty) flt sched (init c aws) = Some s"
    using assms by (simp add: CompareAllInstances_def)
  show "consistent s"
    using run_induct_facts(2) [OF r consistent_init] .
  show "accounted (build_tfMap tf fmempty) flt aws s"
    using run_induct_facts(3) [OF r accounted_init] .
  show "length sched \<le> 2 * length aws + 13"
    using run_induct_facts(1) [OF r] steps_left_init [of c aws] by simp
qed

lemma extends:
  assumes "CompareAllInstances c aws tf flt sched = Some s"
  shows "\<exists>rest s'. Cancel \<notin> set rest
           \<and> CompareAllInstances c aws tf flt (sched @ rest) = Some s'
           \<and> results_closed s' \<and> cancelled s' = cancelled s"
proof -
  obtain rest s' where
    r: "Cancel \<notin> set rest" "run (build_tfMap tf fmempty) flt rest s = Some s'" "results_closed s'"
    using completes by blast
  have "CompareAllInstances c aws tf flt (sched @ rest) = Some s'"
    using assms r(2) by (simp add: CompareAllInstances_def run_append)
  moreover have "cancelled s' = cancelled s"
    using run_cancelled [OF r(2) r(1)] .
  ultimately show ?thesis using r(1,3) by blast
qed

text \<open>
  C2. Take any run of \<open>CompareAllInstances\<close> in which no cancellation has occurred.
  If the call has returned, it returned exactly as many results as there are observed
  instances, and the identifiers of the results are, as a multiset, those of the
  observed instances. If it has not returned, a step of the program is enabled; no run
  has more than \<open>2 N + 13\<close> steps; and the run extends, without cancellation, to one
  in which the call has returned. So without cancellation the call returns, and with
  these results.
\<close>

theorem completeness:
  assumes "CompareAllInstances c aws tf flt sched = Some s" and "\<not> cancelled s"
  shows "(results_closed s \<longrightarrow>
            length (results s) = length aws
            \<and> mset (map DriftResult.InstanceID (results s))
                = mset (map EC2Instance.InstanceID aws))
       \<and> (\<not> results_closed s \<longrightarrow>
            (\<exists>e s'. e \<noteq> Cancel \<and> step (build_tfMap tf fmempty) flt e s = Some s'))
       \<and> length sched \<le> 2 * length aws + 13
       \<and> (\<exists>rest s'. Cancel \<notin> set rest
             \<and> CompareAllInstances c aws tf flt (sched @ rest) = Some s'
             \<and> results_closed s' \<and> \<not> cancelled s')"
proof -
  let ?task = "worker_task (build_tfMap tf fmempty) flt"
  note r = reachable [OF assms(1)]
  have final: "length (results s) = length aws
      \<and> mset (map DriftResult.InstanceID (results s)) = mset (map EC2Instance.InstanceID aws)"
    if "results_closed s"
  proof -
    have "queue s = []"
      using returned_all(2) [OF r(1) r(2) that assms(2)] .
    then have m: "mset (results s) = mset (map ?task aws)"
      using returned_all(1) [OF r(1) r(2) that] by simp
    then have "size (mset (results s)) = size (mset (map ?task aws))" by simp
    then have "length (results s) = length aws" by simp
    moreover have "image_mset DriftResult.InstanceID (mset (results s))
        = image_mset DriftResult.InstanceID (mset (map ?task aws))"
      using m by simp
    then have "mset (map DriftResult.InstanceID (results s))
        = mset (map EC2Instance.InstanceID aws)"
      by (simp add: image_mset.compositionality comp_def worker_task_InstanceID)
    ultimately show ?thesis by simp
  qed
  have "\<exists>rest s'. Cancel \<notin> set rest
             \<and> CompareAllInstances c aws tf flt (sched @ rest) = Some s'
             \<and> results_closed s' \<and> \<not> cancelled s'"
    using extends [OF assms(1)] assms(2) by auto
  then show ?thesis
    using final progress [of s "build_tfMap tf fmempty" flt] r(3) by blast
qed

text \<open>
  C8. Take any run of \<open>CompareAllInstances\<close>, with the context cancelled before the
  call, during it, or never. There are at most as many results as observed instances,
  and each is the complete result of the worker for one observed instance, no instance
  counted twice. Once the call has returned, every observed instance has either its
  result in the list or is still unsent in the feeder's queue: nothing is reported for
  an abandoned task. If the call has not returned, a step of the program is enabled,
  and no run has more than \<open>2 N + 13\<close> steps: the call returns. No step of the model
  fails, as no statement of the function can.
\<close>

theorem cancellation:
  assumes "CompareAllInstances c aws tf flt sched = Some s"
  shows "length (results s) \<le> length aws
       \<and> mset (results s) \<subseteq># mset (map (worker_task (build_tfMap tf fmempty) flt) aws)
       \<and> (results_closed s \<longrightarrow>
            mset (results s) + mset (map (worker_task (build_tfMap tf fmempty) flt) (queue s))
              = mset (map (worker_task (build_tfMap tf fmempty) flt) aws))
       \<and> (\<not> results_closed s \<longrightarrow>
            (\<exists>e s'. e \<noteq> Cancel \<and> step (build_tfMap tf fmempty) flt e s = Some s'))
       \<and> length sched \<le> 2 * length aws + 13
       \<and> (\<exists>rest s'. CompareAllInstances c aws tf flt (sched @ rest) = Some s'
             \<and> results_closed s')"
proof -
  let ?task = "worker_task (build_tfMap tf fmempty) flt"
  note r = reachable [OF assms]
  have sub: "mset (results s) \<subseteq># mset (map ?task aws)"
    using results_sub [OF r(2)] .
  then have "size (mset (results s)) \<le> size (mset (map ?task aws))"
    by (rule size_mset_mono)
  then have len: "length (results s) \<le> length aws" by simp
  have "\<exists>rest s'. CompareAllInstances c aws tf flt (sched @ rest) = Some s' \<and> results_closed s'"
    using extends [OF assms] by blast
  then show ?thesis
    using len sub returned_all(1) [OF r(1) r(2)] progress [of s "build_tfMap tf fmempty" flt] r(3)
    by blast
qed


lemma filter_replicate:
  assumes "\<And>x. x \<in> set xs \<Longrightarrow> P x \<Longrightarrow> x = y"
  shows "filter P xs = replicate (length (filter P xs)) y"
proof -
  have "\<forall>x \<in> set (filter P xs). x = y" using assms by simp
  then show ?thesis by (metis replicate_length_same)
qed

lemma filter_mset_task:
  "filter_mset (\<lambda>r. DriftResult.InstanceID r = ident) (image_mset (worker_task tfMap flt) M)
     = image_mset (worker_task tfMap flt) (filter_mset (\<lambda>a. EC2Instance.InstanceID a = ident) M)"
  by (induction M) (simp_all add: worker_task_InstanceID)

text \<open>
  C1 (as amended). Let \<open>ident\<close> be an identifier that no declared instance carries.
  In every run the results with this identifier are all the result \<open>missing_result\<close>,
  and there are at most as many as observed instances with this identifier. When the
  call has returned and no cancellation has occurred there are exactly as many: one
  for each such observed instance. \<open>missing_result\<close> reports drift and has exactly one
  difference, under \<open>terraform_state\<close>, with the values \<open>exists\<close> and \<open>missing\<close>.
\<close>

theorem missing_counterpart:
  assumes "CompareAllInstances c aws tf flt sched = Some s"
    and "ident \<notin> EC2Instance.InstanceID ` set tf"
  shows "filter (\<lambda>r. DriftResult.InstanceID r = ident) (results s)
           = replicate (length (filter (\<lambda>r. DriftResult.InstanceID r = ident) (results s)))
               (missing_result ident)
       \<and> length (filter (\<lambda>r. DriftResult.InstanceID r = ident) (results s))
           \<le> length (filter (\<lambda>a. EC2Instance.InstanceID a = ident) aws)
       \<and> (results_closed s \<and> \<not> cancelled s \<longrightarrow>
            filter (\<lambda>r. DriftResult.InstanceID r = ident) (results s)
              = replicate (length (filter (\<lambda>a. EC2Instance.InstanceID a = ident) aws))
                  (missing_result ident))
       \<and> DriftDetected (missing_result ident)
       \<and> len_map (Differences (missing_result ident)) = 1
       \<and> fmlookup (Differences (missing_result ident)) ''terraform_state''
           = Some \<lparr>AWS = AString ''exists'', Terraform = AString ''missing''\<rparr>"
proof -
  let ?task = "worker_task (build_tfMap tf fmempty) flt"
  let ?P = "\<lambda>r. DriftResult.InstanceID r = ident"
  let ?Q = "\<lambda>a. EC2Instance.InstanceID a = ident"
  note r = reachable [OF assms(1)]
  have sub: "mset (results s) \<subseteq># mset (map ?task aws)"
    using results_sub [OF r(2)] .
  have syn: "x = missing_result ident" if x: "x \<in> set (results s)" and p: "?P x" for x
  proof -
    have "x \<in># mset (map ?task aws)"
      using sub x by (meson in_multiset_in_set mset_subset_eqD)
    then obtain a where a: "a \<in> set aws" "x = ?task a" by auto
    then have "EC2Instance.InstanceID a = ident"
      using p by (simp add: worker_task_InstanceID)
    then show ?thesis
      using worker_task_missing [of a tf flt] assms(2) a(2) by simp
  qed
  have all_syn: "filter ?P (results s) = replicate (length (filter ?P (results s))) (missing_result ident)"
    using syn by (rule filter_replicate)
  have count_img: "size (filter_mset ?P (mset (map ?task aws))) = length (filter ?Q aws)"
    by (simp add: filter_mset_task length_filter_mset)
  have "filter_mset ?P (mset (results s)) \<subseteq># filter_mset ?P (mset (map ?task aws))"
    using sub by (rule multiset_filter_mono)
  then have "size (filter_mset ?P (mset (results s))) \<le> size (filter_mset ?P (mset (map ?task aws)))"
    by (rule size_mset_mono)
  then have le: "length (filter ?P (results s)) \<le> length (filter ?Q aws)"
    using count_img by (simp add: length_filter_mset)
  have full: "filter ?P (results s) = replicate (length (filter ?Q aws)) (missing_result ident)"
    if "results_closed s" "\<not> cancelled s"
  proof -
    have "queue s = []"
      using returned_all(2) [OF r(1) r(2) that] .
    then have "mset (results s) = mset (map ?task aws)"
      using returned_all(1) [OF r(1) r(2) that(1)] by simp
    then have "length (filter ?P (results s)) = length (filter ?Q aws)"
      using count_img by (simp add: length_filter_mset)
    then show ?thesis using all_syn by simp
  qed
  have "DriftDetected (missing_result ident)"
    "len_map (Differences (missing_result ident)) = 1"
    "fmlookup (Differences (missing_result ident)) ''terraform_state''
           = Some \<lparr>AWS = AString ''exists'', Terraform = AString ''missing''\<rparr>"
    by (simp_all add: missing_result_def len_map_single)
  then show ?thesis
    using all_syn le full by blast
qed

text \<open>
  C7. The drift flag equals \<open>0 < len(differences)\<close> in every result of the current and
  of the legacy per-pair comparator, in every result a worker sends, in the result
  the legacy dispatcher appends for a missing counterpart, and so in every result
  collected in any run of \<open>CompareAllInstances\<close>.
\<close>

theorem drift_flag:
  "DriftDetected (compareInstances a b flt)
     = (0 < len_map (Differences (compareInstances a b flt)))
   \<and> DriftDetected (CompareInstances a b flt)
     = (0 < len_map (Differences (CompareInstances a b flt)))
   \<and> DriftDetected (worker_task tfMap flt a)
     = (0 < len_map (Differences (worker_task tfMap flt a)))
   \<and> DriftDetected (legacy_missing_result ident)
     = (0 < len_map (Differences (legacy_missing_result ident)))
   \<and> (CompareAllInstances c aws tf flt sched = Some s \<longrightarrow>
        (\<forall>r \<in> set (results s). DriftDetected r = (0 < len_map (Differences r))))"
proof -
  have task: "DriftDetected (worker_task m flt x) = (0 < len_map (Differences (worker_task m flt x)))"
    for m x
    by (simp add: worker_task_def compareInstances_DriftDetected split: option.split)
  have run: "\<forall>r \<in> set (results s). DriftDetected r = (0 < len_map (Differences r))"
    if "CompareAllInstances c aws tf flt sched = Some s"
  proof
    fix r assume "r \<in> set (results s)"
    then have "r \<in># mset (map (worker_task (build_tfMap tf fmempty) flt) aws)"
      using results_sub [OF reachable(2) [OF that]]
      by (meson in_multiset_in_set mset_subset_eqD)
    then obtain x where "r = worker_task (build_tfMap tf fmempty) flt x" by auto
    then show "DriftDetected r = (0 < len_map (Differences r))"
      using task by simp
  qed
  have "DriftDetected (legacy_missing_result ident)
     = (0 < len_map (Differences (legacy_missing_result ident)))"
    by (simp add: legacy_missing_result_def)
  then show ?thesis
    using task run compareInstances_DriftDetected CompareInstances_DriftDetected by blast
qed

theorem completeness_witness:
  "CompareAllInstances False [aws_i1, aws_i2] [tf_i1] fmempty sched_all = Some final_all
   \<and> \<not> cancelled final_all \<and> results_closed final_all
   \<and> length (results final_all) = length [aws_i1, aws_i2]
   \<and> mset (map DriftResult.InstanceID (results final_all))
       = mset (map EC2Instance.InstanceID [aws_i1, aws_i2])
   \<and> map DriftResult.InstanceID (results final_all) = [''i-2'', ''i-1'']"
proof -
  have "\<not> cancelled final_all" "results_closed final_all"
    "map DriftResult.InstanceID (results final_all) = [''i-2'', ''i-1'']"
    by (simp_all add: final_all_def worker_task_InstanceID aws_i1_def aws_i2_def)
  then show ?thesis
    using completeness [OF run_all] run_all by simp
qed

theorem cancellation_witness:
  "CompareAllInstances True [aws_i2] [] fmempty sched_cancelled = Some final_cancelled
   \<and> results_closed final_cancelled \<and> cancelled final_cancelled
   \<and> length (results final_cancelled) \<le> length [aws_i2]
   \<and> results final_cancelled = [] \<and> queue final_cancelled = [aws_i2]"
proof -
  have "results_closed final_cancelled" "cancelled final_cancelled"
    "results final_cancelled = []" "queue final_cancelled = [aws_i2]"
    by (simp_all add: final_cancelled_def)
  then show ?thesis
    using cancellation [OF run_cancelled_example] run_cancelled_example by simp
qed

theorem missing_counterpart_witness:
  "CompareAllInstances False [aws_i1, aws_i2] [tf_i1] fmempty sched_all = Some final_all
   \<and> ''i-2'' \<notin> EC2Instance.InstanceID ` set [tf_i1]
   \<and> results_closed final_all \<and> \<not> cancelled final_all
   \<and> filter (\<lambda>r. DriftResult.InstanceID r = ''i-2'') (results final_all)
       = [missing_result ''i-2'']"
proof -
  have m: "''i-2'' \<notin> EC2Instance.InstanceID ` set [tf_i1]"
    by (simp add: tf_i1_def)
  have f: "results_closed final_all" "\<not> cancelled final_all"
    by (simp_all add: final_all_def)
  have "length (filter (\<lambda>a. EC2Instance.InstanceID a = ''i-2'') [aws_i1, aws_i2]) = 1"
    by (simp add: aws_i1_def aws_i2_def)
  then show ?thesis
    using missing_counterpart [OF run_all m] run_all m f by simp
qed

text \<open>
  C1 as stated fails under cancellation: with the context cancelled before the call,
  one observed instance and nothing declared, the call can return no result at all.
\<close>

theorem missing_counterpart_counterexample:
  "CompareAllInstances True [aws_i2] [] fmempty sched_cancelled = Some final_cancelled
   \<and> EC2Instance.InstanceID aws_i2 \<notin> EC2Instance.InstanceID ` set []
   \<and> results_closed final_cancelled
   \<and> results final_cancelled = []"
  using run_cancelled_example by (simp add: final_cancelled_def)

theorem drift_flag_witness:
  "CompareAllInstances False [aws_i1, aws_i2] [tf_i1] fmempty sched_all = Some final_all
   \<and> map DriftDetected (results final_all) = [True, True]
   \<and> map (\<lambda>r. 0 < len_map (Differences r)) (results final_all) = [True, True]
   \<and> DriftDetected (compareInstances aws_i1 aws_i1 fmempty)
       = (0 < len_map (Differences (compareInstances aws_i1 aws_i1 fmempty)))
   \<and> \<not> DriftDetected (compareInstances aws_i1 aws_i1 fmempty)"
proof -
  have "\<not> DriftDetected (compareInstances aws_i1 aws_i1 fmempty)"
    by (simp add: engine_defs example_defs)
  moreover have "map DriftDetected (results final_all) = [True, True]"
    by (simp add: final_all_def engine_defs example_defs aws_i2_def)
  ultimately show ?thesis
    using drift_flag [of aws_i1 aws_i1 fmempty fmempty "[]" False "[aws_i1, aws_i2]" "[tf_i1]"
        sched_all final_all] run_all
    by (simp add: final_all_def)
qed

end
